theory Spec2Isabelle
  imports Main "HOL-Library.Word"
begin

section \<open>Python values used by \<open>utils/security.py\<close>\<close>

text \<open>
  A Python \<open>str\<close> is a sequence of Unicode code points and \<open>len\<close> counts code points;
  \<open>bytes\<close> is a sequence of octets. A \<open>datetime\<close> is an instant with microsecond
  resolution and a \<open>timedelta\<close> a signed number of microseconds, so both are integers
  here (microseconds, the instant counted from the epoch). Python's \<open>int\<close> is unbounded.
\<close>

type_synonym codepoint = nat
type_synonym str = "codepoint list"
type_synonym byte = "8 word"
type_synonym bytes = "byte list"
type_synonym datetime = int
type_synonym timedelta = int

text \<open>
  The exceptions the module can raise: the \<open>ValueError\<close> of \<open>SecretManager.decrypt\<close>,
  \<open>cryptography.fernet.InvalidToken\<close>, the two codec errors of \<open>str.encode\<close> and
  \<open>bytes.decode\<close>, and the \<open>AttributeError\<close> of a method call on \<open>None\<close>.
\<close>

datatype error =
    ValueError string
  | InvalidToken
  | UnicodeEncodeError
  | UnicodeDecodeError
  | AttributeError

subsection \<open>\<open>str.encode()\<close> and \<open>bytes.decode()\<close>: strict UTF-8\<close>

text \<open>
  \<open>str.encode()\<close> raises \<open>UnicodeEncodeError\<close> on a surrogate code point
  (U+D800 .. U+DFFF). A number from 0x110000 on is not a code point: no \<open>str\<close>
  holds it, and the model gives it no encoding either.
\<close>

definition utf8_encode_cp :: "codepoint \<Rightarrow> bytes option" where
  "utf8_encode_cp c =
     (if c < 0x80 then Some [of_nat c]
      else if c < 0x800 then Some [of_nat (0xC0 + c div 0x40), of_nat (0x80 + c mod 0x40)]
      else if c < 0x10000 then
        (if 0xD800 \<le> c \<and> c < 0xE000 then None
         else Some [of_nat (0xE0 + c div 0x1000), of_nat (0x80 + c div 0x40 mod 0x40),
                    of_nat (0x80 + c mod 0x40)])
      else if c < 0x110000 then
        Some [of_nat (0xF0 + c div 0x40000), of_nat (0x80 + c div 0x1000 mod 0x40),
              of_nat (0x80 + c div 0x40 mod 0x40), of_nat (0x80 + c mod 0x40)]
      else None)"

fun str_encode :: "str \<Rightarrow> error + bytes" where
  "str_encode [] = Inr []"
| "str_encode (c # cs) =
     (case utf8_encode_cp c of
        None \<Rightarrow> Inl UnicodeEncodeError
      | Some bs \<Rightarrow> (case str_encode cs of Inl e \<Rightarrow> Inl e | Inr r \<Rightarrow> Inr (bs @ r)))"

definition continuation :: "byte \<Rightarrow> bool" where
  "continuation b = (0x80 \<le> b \<and> b < 0xC0)"

definition cp2 :: "byte \<Rightarrow> byte \<Rightarrow> codepoint" where
  "cp2 b0 b1 = (unat b0 - 0xC0) * 0x40 + (unat b1 - 0x80)"

definition cp3 :: "byte \<Rightarrow> byte \<Rightarrow> byte \<Rightarrow> codepoint" where
  "cp3 b0 b1 b2 = (unat b0 - 0xE0) * 0x1000 + (unat b1 - 0x80) * 0x40 + (unat b2 - 0x80)"

definition cp4 :: "byte \<Rightarrow> byte \<Rightarrow> byte \<Rightarrow> byte \<Rightarrow> codepoint" where
  "cp4 b0 b1 b2 b3 =
     (unat b0 - 0xF0) * 0x40000 + (unat b1 - 0x80) * 0x1000 + (unat b2 - 0x80) * 0x40
     + (unat b3 - 0x80)"

text \<open>
  One code point from the front of the bytes, with the bytes after it. The strict decoder
  refuses a stray or missing continuation byte, an overlong form, a surrogate and a value
  past U+10FFFF.
\<close>

definition utf8_decode_cp :: "bytes \<Rightarrow> (codepoint \<times> bytes) option" where
  "utf8_decode_cp bs =
     (case bs of
        [] \<Rightarrow> None
      | b0 # rest \<Rightarrow>
         if b0 < 0x80 then Some (unat b0, rest)
         else if 0xC2 \<le> b0 \<and> b0 < 0xE0 then
           (case rest of
              b1 # r \<Rightarrow> if continuation b1 then Some (cp2 b0 b1, r) else None
            | _ \<Rightarrow> None)
         else if 0xE0 \<le> b0 \<and> b0 < 0xF0 then
           (case rest of
              b1 # b2 # r \<Rightarrow>
                if continuation b1 \<and> continuation b2 \<and> 0x800 \<le> cp3 b0 b1 b2
                   \<and> \<not> (0xD800 \<le> cp3 b0 b1 b2 \<and> cp3 b0 b1 b2 < 0xE000)
                then Some (cp3 b0 b1 b2, r) else None
            | _ \<Rightarrow> None)
         else if 0xF0 \<le> b0 \<and> b0 < 0xF5 then
           (case rest of
              b1 # b2 # b3 # r \<Rightarrow>
                if continuation b1 \<and> continuation b2 \<and> continuation b3
                   \<and> 0x10000 \<le> cp4 b0 b1 b2 b3 \<and> cp4 b0 b1 b2 b3 < 0x110000
                then Some (cp4 b0 b1 b2 b3, r) else None
            | _ \<Rightarrow> None)
         else None)"

lemma utf8_decode_cp_shorter:
  "utf8_decode_cp bs = Some cr \<Longrightarrow> length (snd cr) < length bs"
  unfolding utf8_decode_cp_def
  by (simp split: list.splits if_splits; clarsimp)

function bytes_decode :: "bytes \<Rightarrow> error + str" where
  "bytes_decode [] = Inr []"
| "bytes_decode (b # bs) =
     (case utf8_decode_cp (b # bs) of
        None \<Rightarrow> Inl UnicodeDecodeError
      | Some (c, r) \<Rightarrow>
          (case bytes_decode r of Inl e \<Rightarrow> Inl e | Inr s \<Rightarrow> Inr (c # s)))"
  by pat_completeness auto
termination
proof (relation "measure length")
  show "wf (measure length)" by simp
next
  fix b :: byte and bs :: bytes and x2 c r
  assume "utf8_decode_cp (b # bs) = Some x2" and "(c, r) = x2"
  then have "length r < length (b # bs)"
    using utf8_decode_cp_shorter [of "b # bs" x2] by fastforce
  then show "(r, b # bs) \<in> measure length" by simp
qed

subsection \<open>Literals\<close>

text \<open>A \<open>str\<close> literal of the source, as code points.\<close>

definition py :: "string \<Rightarrow> str" where
  "py s = map of_char s"

subsection \<open>Decimal text of an \<open>int\<close>, as an f-string renders it\<close>

function str_nat :: "nat \<Rightarrow> string" where
  "str_nat n =
     (if n < 10 then [''0123456789'' ! n]
      else str_nat (n div 10) @ [''0123456789'' ! (n mod 10)])"
  by pat_completeness auto
termination
  by (relation "measure (\<lambda>n. n)") simp_all

declare str_nat.simps [simp del]

definition str_int :: "int \<Rightarrow> string" where
  "str_int i = (if i < 0 then ''-'' @ str_nat (nat (- i)) else str_nat (nat i))"

section \<open>Configuration models\<close>

record PasswordPolicy =
  min_length :: int
  require_numbers :: bool
  require_symbols :: bool
  require_uppercase :: bool
  require_lowercase :: bool

record KeyRotation =
  enabled :: bool
  interval :: timedelta
  algorithm :: string
  key_length :: int

record RateLimit =
  window :: timedelta
  max_requests :: int
  skip_paths :: "str list"

record SecurityConfig =
  key_rotation :: KeyRotation
  password_policy :: PasswordPolicy
  rate_limit :: RateLimit
  max_login_attempts :: int
  lockout_duration :: timedelta

section \<open>\<open>PasswordPolicy.validate_password\<close>\<close>

text \<open>
  \<open>str.isdigit\<close>, \<open>str.isalnum\<close>, \<open>str.isupper\<close> and \<open>str.islower\<close> read the
  interpreter's Unicode character database, which is no part of the repository: the four
  character classes are a parameter of the model.
\<close>

record str_methods =
  isdigit :: "codepoint \<Rightarrow> bool"
  isalnum :: "codepoint \<Rightarrow> bool"
  isupper :: "codepoint \<Rightarrow> bool"
  islower :: "codepoint \<Rightarrow> bool"

definition validate_password ::
  "str_methods \<Rightarrow> PasswordPolicy \<Rightarrow> str \<Rightarrow> bool \<times> str option" where
  "validate_password U self password =
     (if int (length password) < min_length self then
        (False, Some (py ''Password must be at least '' @ py (str_int (min_length self))
                      @ py '' characters''))
      else if require_numbers self \<and> \<not> list_ex (\<lambda>c. isdigit U c) password then
        (False, Some (py ''Password must contain at least one number''))
      else if require_symbols self \<and> \<not> list_ex (\<lambda>c. \<not> isalnum U c) password then
        (False, Some (py ''Password must contain at least one symbol''))
      else if require_uppercase self \<and> \<not> list_ex (\<lambda>c. isupper U c) password then
        (False, Some (py ''Password must contain at least one uppercase letter''))
      else if require_lowercase self \<and> \<not> list_ex (\<lambda>c. islower U c) password then
        (False, Some (py ''Password must contain at least one lowercase letter''))
      else (True, None))"

subsection \<open>The specification's reading: ordered rules, first violation\<close>

datatype rule = MinLength | Digit | Symbol | Uppercase | Lowercase

definition rule_order :: "rule list" where
  "rule_order = [MinLength, Digit, Symbol, Uppercase, Lowercase]"

fun configured :: "PasswordPolicy \<Rightarrow> rule \<Rightarrow> bool" where
  "configured P MinLength = True"
| "configured P Digit = require_numbers P"
| "configured P Symbol = require_symbols P"
| "configured P Uppercase = require_uppercase P"
| "configured P Lowercase = require_lowercase P"

fun passes :: "str_methods \<Rightarrow> PasswordPolicy \<Rightarrow> str \<Rightarrow> rule \<Rightarrow> bool" where
  "passes U P pw MinLength = (min_length P \<le> int (length pw))"
| "passes U P pw Digit = (\<exists>c \<in> set pw. isdigit U c)"
| "passes U P pw Symbol = (\<exists>c \<in> set pw. \<not> isalnum U c)"
| "passes U P pw Uppercase = (\<exists>c \<in> set pw. isupper U c)"
| "passes U P pw Lowercase = (\<exists>c \<in> set pw. islower U c)"

fun reason :: "PasswordPolicy \<Rightarrow> rule \<Rightarrow> str" where
  "reason P MinLength =
     py ''Password must be at least '' @ py (str_int (min_length P)) @ py '' characters''"
| "reason P Digit = py ''Password must contain at least one number''"
| "reason P Symbol = py ''Password must contain at least one symbol''"
| "reason P Uppercase = py ''Password must contain at least one uppercase letter''"
| "reason P Lowercase = py ''Password must contain at least one lowercase letter''"

definition first_violation :: "str_methods \<Rightarrow> PasswordPolicy \<Rightarrow> str \<Rightarrow> rule option" where
  "first_violation U P pw = find (\<lambda>r. configured P r \<and> \<not> passes U P pw r) rule_order"

section \<open>\<open>SecretManager\<close>\<close>

text \<open>
  \<open>cryptography.fernet.Fernet\<close> is a library: it is modelled as an ideal authenticated
  cipher. The text of a token sealed under key \<open>k\<close> with plaintext \<open>b\<close> is
  \<open>Token k b\<close>; it opens under \<open>k\<close> alone, and under any other key the library raises
  \<open>InvalidToken\<close>. \<open>Junk s\<close> is a \<open>str\<close> that is the text of no token. The
  timestamp and the initialisation vector inside a token play no part in
  \<open>Fernet.decrypt\<close> called without a \<open>ttl\<close>, as here.
\<close>

type_synonym fernet_key = bytes

datatype ciphertext = Token fernet_key bytes | Junk str

definition Fernet_encrypt :: "fernet_key \<Rightarrow> bytes \<Rightarrow> ciphertext" where
  "Fernet_encrypt k b = Token k b"

text \<open>\<open>Fernet.decrypt\<close> applied to \<open>encrypted_data.encode()\<close>.\<close>

definition Fernet_decrypt :: "fernet_key \<Rightarrow> ciphertext \<Rightarrow> error + bytes" where
  "Fernet_decrypt k t =
     (case t of
        Junk s \<Rightarrow> (case str_encode s of Inl e \<Rightarrow> Inl e | Inr _ \<Rightarrow> Inl InvalidToken)
      | Token k' b \<Rightarrow> if k' = k then Inr b else Inl InvalidToken)"

text \<open>
  The attributes \<open>_fernet\<close> (the \<open>Fernet\<close> object, that is its key, or \<open>None\<close>),
  \<open>_key_created\<close> and \<open>_rotation_interval\<close>.
\<close>

record SecretManager =
  fernet :: "fernet_key option"
  key_created :: "datetime option"
  rotation_interval :: timedelta

definition SecretManager_init :: SecretManager where
  "SecretManager_init =
     \<lparr>fernet = None, key_created = None,
      rotation_interval = 30 * 24 * 60 * 60 * 1000000\<rparr>"

text \<open>
  \<open>_create_key\<close>: \<open>key\<close> is what \<open>Fernet.generate_key()\<close> returns in this call and
  \<open>now\<close> what \<open>datetime.now\<close> returns.
\<close>

definition create_key :: "SecretManager \<Rightarrow> fernet_key \<Rightarrow> datetime \<Rightarrow> SecretManager" where
  "create_key self key now = self\<lparr>fernet := Some key, key_created := Some now\<rparr>"

text \<open>\<open>_should_rotate\<close>; a \<open>datetime\<close> is always truthy.\<close>

definition should_rotate :: "SecretManager \<Rightarrow> datetime \<Rightarrow> bool" where
  "should_rotate self now =
     (case key_created self of
        None \<Rightarrow> True
      | Some created \<Rightarrow> now - created > rotation_interval self)"

text \<open>
  \<open>encrypt\<close> reads the clock in \<open>_should_rotate\<close> (\<open>now_check\<close>) and once more in
  \<open>_create_key\<close> (\<open>now_create\<close>) when it rotates. The key state is updated before
  \<open>data.encode()\<close> can raise, so the new state is returned beside the result.
\<close>

definition encrypt ::
  "SecretManager \<Rightarrow> datetime \<Rightarrow> datetime \<Rightarrow> fernet_key \<Rightarrow> str
     \<Rightarrow> SecretManager \<times> (error + ciphertext)" where
  "encrypt self now_check now_create key data =
     (let self' = (if should_rotate self now_check then create_key self key now_create
                   else self)
      in (self',
          case fernet self' of
            None \<Rightarrow> Inl AttributeError
          | Some k \<Rightarrow>
              (case str_encode data of
                 Inl e \<Rightarrow> Inl e
               | Inr b \<Rightarrow> Inr (Fernet_encrypt k b))))"

text \<open>\<open>decrypt\<close> assigns no attribute: the state is the same after it.\<close>

definition decrypt :: "SecretManager \<Rightarrow> ciphertext \<Rightarrow> error + str" where
  "decrypt self encrypted_data =
     (case fernet self of
        None \<Rightarrow> Inl (ValueError ''No encryption key available'')
      | Some k \<Rightarrow>
          (case Fernet_decrypt k encrypted_data of
             Inl e \<Rightarrow> Inl e
           | Inr b \<Rightarrow> bytes_decode b))"

text \<open>
  The state holds a key whenever it holds a creation time: \<open>_create_key\<close> sets both.
\<close>

definition key_present :: "SecretManager \<Rightarrow> bool" where
  "key_present self = (key_created self = None \<or> fernet self \<noteq> None)"

subsection \<open>Sequences of \<open>encrypt\<close> calls\<close>

record encrypt_call =
  now_check :: datetime
  now_create :: datetime
  new_key :: fernet_key
  plaintext :: str

definition encrypt_step :: "SecretManager \<Rightarrow> encrypt_call \<Rightarrow> SecretManager" where
  "encrypt_step self c =
     fst (encrypt self (now_check c) (now_create c) (new_key c) (plaintext c))"

fun encrypt_calls :: "SecretManager \<Rightarrow> encrypt_call list \<Rightarrow> SecretManager" where
  "encrypt_calls self [] = self"
| "encrypt_calls self (c # cs) = encrypt_calls (encrypt_step self c) cs"

text \<open>Whether some call of the sequence rotates the key.\<close>

fun rotated :: "SecretManager \<Rightarrow> encrypt_call list \<Rightarrow> bool" where
  "rotated self [] = False"
| "rotated self (c # cs) =
     (should_rotate self (now_check c) \<or> rotated (encrypt_step self c) cs)"

section \<open>\<open>SecurityService\<close>\<close>

text \<open>An entry of \<open>_failed_attempts\<close>: the dict with the keys \<open>count\<close> and \<open>timestamp\<close>.\<close>

record attempt =
  count :: int
  timestamp :: datetime

record SecurityService =
  config :: SecurityConfig
  secret_manager :: SecretManager
  failed_attempts :: "str \<rightharpoonup> attempt"

definition SecurityService_init :: "SecurityConfig \<Rightarrow> SecretManager \<Rightarrow> SecurityService" where
  "SecurityService_init cfg sm =
     \<lparr>config = cfg, secret_manager = sm, failed_attempts = Map.empty\<rparr>"

text \<open>The f-string \<open>{ip}:{path}\<close>; 0x3A is the colon.\<close>

definition rate_key :: "str \<Rightarrow> str \<Rightarrow> str" where
  "rate_key path ip = ip @ [0x3A] @ path"

text \<open>The dict comprehension that drops the old entries.\<close>

definition clean_up :: "SecurityService \<Rightarrow> datetime \<Rightarrow> (str \<rightharpoonup> attempt)" where
  "clean_up self now =
     (\<lambda>k. case failed_attempts self k of
             None \<Rightarrow> None
           | Some v \<Rightarrow>
               if now - timestamp v < window (rate_limit (config self)) then Some v
               else None)"

text \<open>
  \<open>check_rate_limit\<close>, which takes the path first and the caller's address second;
  \<open>now\<close> is what \<open>datetime.now\<close> returns in this call.
\<close>

definition check_rate_limit ::
  "SecurityService \<Rightarrow> str \<Rightarrow> str \<Rightarrow> datetime \<Rightarrow> bool \<times> SecurityService" where
  "check_rate_limit self path ip now =
     (if path \<in> set (skip_paths (rate_limit (config self))) then (True, self)
      else
        let key = rate_key path ip;
            attempts = clean_up self now
        in case attempts key of
             None \<Rightarrow>
               (True, self\<lparr>failed_attempts := attempts(key \<mapsto> \<lparr>count = 1, timestamp = now\<rparr>)\<rparr>)
           | Some v \<Rightarrow>
               if count v \<ge> max_requests (rate_limit (config self))
               then (False, self\<lparr>failed_attempts := attempts\<rparr>)
               else (True, self\<lparr>failed_attempts :=
                             attempts(key \<mapsto> v\<lparr>count := count v + 1\<rparr>)\<rparr>))"

text \<open>A sequence of calls for one path and address, at the given clock readings.\<close>

fun check_rate_limits ::
  "SecurityService \<Rightarrow> str \<Rightarrow> str \<Rightarrow> datetime list \<Rightarrow> bool list \<times> SecurityService" where
  "check_rate_limits self path ip [] = ([], self)"
| "check_rate_limits self path ip (now # nows) =
     (let (b, self') = check_rate_limit self path ip now;
          (bs, self'') = check_rate_limits self' path ip nows
      in (b # bs, self''))"

text \<open>
  \<open>constant_time_compare\<close>, which reads nothing of the service.
  \<open>hashlib.sha256(...).digest()\<close> is a library function from bytes to 32 octets, a
  parameter here; \<open>hmac.compare_digest\<close> returns whether its two arguments are equal.
\<close>

definition constant_time_compare ::
  "(bytes \<Rightarrow> 256 word) \<Rightarrow> str \<Rightarrow> str \<Rightarrow> error + bool" where
  "constant_time_compare sha256 val1 val2 =
     (case str_encode val1 of
        Inl e \<Rightarrow> Inl e
      | Inr b1 \<Rightarrow>
          (case str_encode val2 of
             Inl e \<Rightarrow> Inl e
           | Inr b2 \<Rightarrow> Inr (sha256 b1 = sha256 b2)))"

section \<open>Defaults and examples\<close>

text \<open>The field defaults of the configuration models.\<close>

definition PasswordPolicy_default :: PasswordPolicy where
  "PasswordPolicy_default =
     \<lparr>min_length = 12, require_numbers = True, require_symbols = True,
      require_uppercase = True, require_lowercase = True\<rparr>"

definition KeyRotation_default :: KeyRotation where
  "KeyRotation_default =
     \<lparr>enabled = True, interval = 30 * 24 * 60 * 60 * 1000000,
      algorithm = ''AES-256-GCM'', key_length = 256\<rparr>"

definition RateLimit_default :: RateLimit where
  "RateLimit_default =
     \<lparr>window = 15 * 60 * 1000000, max_requests = 100,
      skip_paths = [py ''/health'', py ''/metrics'']\<rparr>"

definition SecurityConfig_default :: SecurityConfig where
  "SecurityConfig_default =
     \<lparr>key_rotation = KeyRotation_default, password_policy = PasswordPolicy_default,
      rate_limit = RateLimit_default, max_login_attempts = 5,
      lockout_duration = 15 * 60 * 1000000\<rparr>"

text \<open>A small configuration for worked examples: a window of ten microseconds.\<close>

definition tiny_config :: "int \<Rightarrow> SecurityConfig" where
  "tiny_config m =
     SecurityConfig_default
       \<lparr>rate_limit := \<lparr>window = 10, max_requests = m, skip_paths = [py ''/health'']\<rparr>\<rparr>"

text \<open>
  The character classes on ASCII, where they are the digits and the Latin letters.
\<close>

definition ascii_methods :: str_methods where
  "ascii_methods =
     \<lparr>isdigit = (\<lambda>c. 0x30 \<le> c \<and> c \<le> 0x39),
      isalnum = (\<lambda>c. (0x30 \<le> c \<and> c \<le> 0x39) \<or> (0x41 \<le> c \<and> c \<le> 0x5A)
                      \<or> (0x61 \<le> c \<and> c \<le> 0x7A)),
      isupper = (\<lambda>c. 0x41 \<le> c \<and> c \<le> 0x5A),
      islower = (\<lambda>c. 0x61 \<le> c \<and> c \<le> 0x7A)\<rparr>"

text \<open>
  Two keys as \<open>Fernet.generate_key()\<close> may return them one after the other, and calls of
  \<open>encrypt\<close>: a first one, one a few microseconds later, and one 31 days later.
\<close>

definition key_a :: fernet_key where "key_a = replicate 32 1"
definition key_b :: fernet_key where "key_b = replicate 32 2"

definition call_first :: encrypt_call where
  "call_first = \<lparr>now_check = 0, now_create = 1, new_key = key_a, plaintext = py ''secret''\<rparr>"

definition call_soon :: encrypt_call where
  "call_soon = \<lparr>now_check = 5, now_create = 6, new_key = key_b, plaintext = py ''other''\<rparr>"

definition call_late :: encrypt_call where
  "call_late = \<lparr>now_check = 2678400000000, now_create = 2678400000001, new_key = key_b,
                 plaintext = py ''other''\<rparr>"

text \<open>
  A configuration whose key rotation interval is one day, and a call of \<open>encrypt\<close> two
  days after the first.
\<close>

definition one_day_config :: SecurityConfig where
  "one_day_config =
     SecurityConfig_default
       \<lparr>key_rotation := KeyRotation_default\<lparr>interval := 24 * 60 * 60 * 1000000\<rparr>\<rparr>"

definition call_two_days :: encrypt_call where
  "call_two_days = \<lparr>now_check = 172800000000, now_create = 172800000001, new_key = key_b,
                     plaintext = py ''other''\<rparr>"

text \<open>
  A stand-in for the digest in worked examples: the sum of the octets, as 256 bits.
\<close>

definition sum_digest :: "bytes \<Rightarrow> 256 word" where
  "sum_digest bs = of_nat (sum_list (map unat bs))"

section \<open>UTF-8: decoding gives back what was encoded\<close>

subsection \<open>Arithmetic of the six-bit groups\<close>

lemma unat_byte: "n < 256 \<Longrightarrow> unat (of_nat n :: byte) = n"
  by (simp add: unat_of_nat)

lemma groups3: "(c::nat) div 4096 * 4096 + c div 64 mod 64 * 64 + c mod 64 = c"
proof -
  define q where "q = c div 64"
  have 1: "c = 64 * q + c mod 64" unfolding q_def by simp
  have 2: "q = 64 * (q div 64) + q mod 64" by simp
  have 3: "q div 64 = c div 4096" unfolding q_def by (simp add: div_mult2_eq [symmetric])
  show ?thesis using 1 2 3 unfolding q_def [symmetric] by linarith
qed

lemma groups4:
  "(c::nat) div 262144 * 262144 + c div 4096 mod 64 * 4096 + c div 64 mod 64 * 64 + c mod 64 = c"
proof -
  define p where "p = c div 4096"
  have 1: "c = p * 4096 + c div 64 mod 64 * 64 + c mod 64"
    unfolding p_def using groups3 [of c] by simp
  have 2: "p = 64 * (p div 64) + p mod 64" by simp
  have 3: "p div 64 = c div 262144" unfolding p_def by (simp add: div_mult2_eq [symmetric])
  show ?thesis using 1 2 3 unfolding p_def [symmetric] by linarith
qed

subsection \<open>Decoding what was encoded\<close>

lemma decode_cp1:
  assumes "c < 0x80"
  shows "utf8_decode_cp (of_nat c # r) = Some (c, r)"
proof -
  have u: "unat (of_nat c :: byte) = c" using assms by (intro unat_byte) simp
  have "(of_nat c :: byte) < 0x80" using assms by (simp add: word_less_nat_alt u)
  then show ?thesis by (simp add: utf8_decode_cp_def u)
qed

lemma decode_cp2:
  assumes "\<not> c < 0x80" "c < 0x800"
  shows "utf8_decode_cp (of_nat (0xC0 + c div 0x40) # of_nat (0x80 + c mod 0x40) # r) = Some (c, r)"
proof -
  define b0 :: byte where "b0 = of_nat (0xC0 + c div 0x40)"
  define b1 :: byte where "b1 = of_nat (0x80 + c mod 0x40)"
  have d: "c div 64 < 32" "2 \<le> c div 64"
    using assms by (simp_all add: less_mult_imp_div_less less_eq_div_iff_mult_less_eq)
  have m: "c mod 64 < 64" by simp
  have u0: "unat b0 = 0xC0 + c div 0x40" unfolding b0_def using d by (intro unat_byte) simp
  have u1: "unat b1 = 0x80 + c mod 0x40" unfolding b1_def using m by (intro unat_byte) simp
  have r0: "\<not> b0 < 0x80" "0xC2 \<le> b0" "b0 < 0xE0"
    using d by (simp_all add: word_less_nat_alt word_le_nat_alt u0)
  have r1: "continuation b1"
    using m by (simp add: continuation_def word_less_nat_alt word_le_nat_alt u1)
  have c: "cp2 b0 b1 = c" by (simp add: cp2_def u0 u1)
  show ?thesis
    unfolding b0_def [symmetric] b1_def [symmetric]
    by (simp add: utf8_decode_cp_def r0 r1 c)
qed

lemma decode_cp3:
  assumes "\<not> c < 0x800" "c < 0x10000" "\<not> (0xD800 \<le> c \<and> c < 0xE000)"
  shows "utf8_decode_cp (of_nat (0xE0 + c div 0x1000) # of_nat (0x80 + c div 0x40 mod 0x40)
           # of_nat (0x80 + c mod 0x40) # r) = Some (c, r)"
proof -
  define b0 :: byte where "b0 = of_nat (0xE0 + c div 0x1000)"
  define b1 :: byte where "b1 = of_nat (0x80 + c div 0x40 mod 0x40)"
  define b2 :: byte where "b2 = of_nat (0x80 + c mod 0x40)"
  have d: "c div 4096 < 16" using assms by (simp add: less_mult_imp_div_less)
  have m: "c div 64 mod 64 < 64" "c mod 64 < 64" by simp_all
  have u0: "unat b0 = 0xE0 + c div 0x1000" unfolding b0_def using d by (intro unat_byte) simp
  have u1: "unat b1 = 0x80 + c div 0x40 mod 0x40"
    unfolding b1_def using m by (intro unat_byte) simp
  have u2: "unat b2 = 0x80 + c mod 0x40" unfolding b2_def using m by (intro unat_byte) simp
  have r0: "\<not> b0 < 0x80" "\<not> (0xC2 \<le> b0 \<and> b0 < 0xE0)" "0xE0 \<le> b0" "b0 < 0xF0"
    using d by (simp_all add: word_less_nat_alt word_le_nat_alt u0)
  have r1: "continuation b1" "continuation b2"
    using m by (simp_all add: continuation_def word_less_nat_alt word_le_nat_alt u1 u2)
  have c: "cp3 b0 b1 b2 = c" unfolding cp3_def u0 u1 u2 using groups3 [of c] by simp
  show ?thesis
    unfolding b0_def [symmetric] b1_def [symmetric] b2_def [symmetric]
    using assms by (simp add: utf8_decode_cp_def r0 r1 c)
qed

lemma decode_cp4:
  assumes "\<not> c < 0x10000" "c < 0x110000"
  shows "utf8_decode_cp (of_nat (0xF0 + c div 0x40000) # of_nat (0x80 + c div 0x1000 mod 0x40)
           # of_nat (0x80 + c div 0x40 mod 0x40) # of_nat (0x80 + c mod 0x40) # r) = Some (c, r)"
proof -
  define b0 :: byte where "b0 = of_nat (0xF0 + c div 0x40000)"
  define b1 :: byte where "b1 = of_nat (0x80 + c div 0x1000 mod 0x40)"
  define b2 :: byte where "b2 = of_nat (0x80 + c div 0x40 mod 0x40)"
  define b3 :: byte where "b3 = of_nat (0x80 + c mod 0x40)"
  have d: "c div 262144 < 5" using assms by (simp add: less_mult_imp_div_less)
  have m: "c div 4096 mod 64 < 64" "c div 64 mod 64 < 64" "c mod 64 < 64" by simp_all
  have u0: "unat b0 = 0xF0 + c div 0x40000" unfolding b0_def using d by (intro unat_byte) simp
  have u1: "unat b1 = 0x80 + c div 0x1000 mod 0x40"
    unfolding b1_def using m by (intro unat_byte) simp
  have u2: "unat b2 = 0x80 + c div 0x40 mod 0x40"
    unfolding b2_def using m by (intro unat_byte) simp
  have u3: "unat b3 = 0x80 + c mod 0x40" unfolding b3_def using m by (intro unat_byte) simp
  have r0: "\<not> b0 < 0x80" "\<not> (0xC2 \<le> b0 \<and> b0 < 0xE0)" "\<not> (0xE0 \<le> b0 \<and> b0 < 0xF0)"
           "0xF0 \<le> b0" "b0 < 0xF5"
    using d by (simp_all add: word_less_nat_alt word_le_nat_alt u0)
  have r1: "continuation b1" "continuation b2" "continuation b3"
    using m by (simp_all add: continuation_def word_less_nat_alt word_le_nat_alt u1 u2 u3)
  have c: "cp4 b0 b1 b2 b3 = c" unfolding cp4_def u0 u1 u2 u3 using groups4 [of c] by simp
  show ?thesis
    unfolding b0_def [symmetric] b1_def [symmetric] b2_def [symmetric] b3_def [symmetric]
    using assms by (simp add: utf8_decode_cp_def r0 r1 c)
qed

lemma utf8_decode_encode_cp:
  assumes "utf8_encode_cp c = Some bs"
  shows "utf8_decode_cp (bs @ r) = Some (c, r)"
proof -
  consider "c < 0x80" | "\<not> c < 0x80" "c < 0x800"
    | "\<not> c < 0x800" "c < 0x10000" "\<not> (0xD800 \<le> c \<and> c < 0xE000)"
    | "\<not> c < 0x10000" "c < 0x110000"
    using assms unfolding utf8_encode_cp_def by (simp split: if_splits)
  then show ?thesis
  proof cases
    case 1
    then have "bs = [of_nat c]" using assms by (simp add: utf8_encode_cp_def)
    then show ?thesis using decode_cp1 [OF 1] by simp
  next
    case 2
    then have "bs = [of_nat (0xC0 + c div 0x40), of_nat (0x80 + c mod 0x40)]"
      using assms by (auto simp add: utf8_encode_cp_def)
    then show ?thesis using decode_cp2 [OF 2] by simp
  next
    case 3
    then have "bs = [of_nat (0xE0 + c div 0x1000), of_nat (0x80 + c div 0x40 mod 0x40),
                     of_nat (0x80 + c mod 0x40)]"
      using assms by (auto simp add: utf8_encode_cp_def)
    then show ?thesis using decode_cp3 [OF 3] by simp
  next
    case 4
    then have "bs = [of_nat (0xF0 + c div 0x40000), of_nat (0x80 + c div 0x1000 mod 0x40),
                     of_nat (0x80 + c div 0x40 mod 0x40), of_nat (0x80 + c mod 0x40)]"
      using assms by (auto simp add: utf8_encode_cp_def)
    then show ?thesis using decode_cp4 [OF 4] by simp
  qed
qed

lemma utf8_encode_cp_nonempty: "utf8_encode_cp c = Some bs \<Longrightarrow> bs \<noteq> []"
  unfolding utf8_encode_cp_def by (simp split: if_splits; clarsimp)

lemma bytes_decode_str_encode: "str_encode s = Inr b \<Longrightarrow> bytes_decode b = Inr s"
proof (induction s arbitrary: b)
  case Nil
  then show ?case by simp
next
  case (Cons c cs)
  from Cons.prems obtain bs r where
    enc: "utf8_encode_cp c = Some bs" and rest: "str_encode cs = Inr r" and b: "b = bs @ r"
    by (auto split: option.splits sum.splits)
  from utf8_encode_cp_nonempty [OF enc] obtain x xs where bs: "bs = x # xs"
    by (cases bs) auto
  have "utf8_decode_cp ((x # xs) @ r) = Some (c, r)"
    using utf8_decode_encode_cp [OF enc] bs by simp
  then have "bytes_decode ((x # xs) @ r) = Inr (c # cs)"
    using Cons.IH [OF rest] by simp
  then show ?case by (simp add: b bs)
qed

lemma str_encode_inj:
  assumes "str_encode s = Inr b" "str_encode s' = Inr b"
  shows "s = s'"
  using bytes_decode_str_encode [OF assms(1)] bytes_decode_str_encode [OF assms(2)] by simp

section \<open>Password policy\<close>

lemma list_ex_set: "list_ex P xs = (\<exists>x \<in> set xs. P x)"
  by (simp add: list_ex_iff)

text \<open>The messages of different rules differ.\<close>

lemma reason_inj: "reason P r = reason P r' \<Longrightarrow> r = r'"
  by (cases r; cases r'; simp add: py_def)

text \<open>
  C5. \<open>validate_password\<close> returns the outcome of the first rule, in the order
  length, digit, symbol, uppercase, lowercase, that is configured and violated, with that
  rule's message as the reason, and \<open>(True, None)\<close> when there is none. It succeeds
  exactly when every configured rule passes; and the reason is the message of rule \<open>r\<close>
  exactly when \<open>r\<close> is configured and violated and every configured rule before
  \<open>r\<close> passes (the messages of different rules differ).
\<close>

theorem validate_password_first_violation:
  "validate_password U P pw =
     (case first_violation U P pw of
        None \<Rightarrow> (True, None)
      | Some r \<Rightarrow> (False, Some (reason P r)))
   \<and> (fst (validate_password U P pw)
        \<longleftrightarrow> (\<forall>r \<in> set rule_order. configured P r \<longrightarrow> passes U P pw r))
   \<and> (\<forall>r. snd (validate_password U P pw) = Some (reason P r) \<longleftrightarrow>
          configured P r \<and> \<not> passes U P pw r
          \<and> (\<forall>q \<in> set (takeWhile (\<lambda>q. q \<noteq> r) rule_order). configured P q \<longrightarrow> passes U P pw q))"
proof -
  have 1: "validate_password U P pw =
     (case first_violation U P pw of
        None \<Rightarrow> (True, None)
      | Some r \<Rightarrow> (False, Some (reason P r)))"
    by (simp add: validate_password_def first_violation_def rule_order_def list_ex_set)
  have 2: "fst (validate_password U P pw)
        \<longleftrightarrow> (\<forall>r \<in> set rule_order. configured P r \<longrightarrow> passes U P pw r)"
    by (simp add: validate_password_def rule_order_def list_ex_set)
  have 3: "snd (validate_password U P pw) = Some (reason P r) \<longleftrightarrow>
          configured P r \<and> \<not> passes U P pw r
          \<and> (\<forall>q \<in> set (takeWhile (\<lambda>q. q \<noteq> r) rule_order). configured P q \<longrightarrow> passes U P pw q)" for r
    by (cases r) (auto simp add: validate_password_def rule_order_def list_ex_set py_def)
  show ?thesis using 1 2 3 by blast
qed

lemma str_nat_1: "str_nat (Suc 0) = ''1''"
  by (subst str_nat.simps) simp

lemma str_int_12: "str_int 12 = ''12''"
  by (simp add: str_int_def str_nat.simps [of 12] str_nat_1)

theorem validate_password_first_violation_witness:
  "validate_password ascii_methods PasswordPolicy_default (py ''short1!'')
     = (False, Some (py ''Password must be at least 12 characters''))
   \<and> validate_password ascii_methods PasswordPolicy_default (py ''longenough1234!'')
     = (False, Some (py ''Password must contain at least one uppercase letter''))
   \<and> validate_password ascii_methods PasswordPolicy_default (py ''Longenough1234!'')
     = (True, None)"
proof -
  have 1: "first_violation ascii_methods PasswordPolicy_default (py ''short1!'') = Some MinLength"
    by (simp add: first_violation_def rule_order_def PasswordPolicy_default_def py_def)
  have 2: "first_violation ascii_methods PasswordPolicy_default (py ''longenough1234!'')
             = Some Uppercase"
    by (simp add: first_violation_def rule_order_def PasswordPolicy_default_def py_def
        ascii_methods_def)
  have 3: "first_violation ascii_methods PasswordPolicy_default (py ''Longenough1234!'') = None"
    by (simp add: first_violation_def rule_order_def PasswordPolicy_default_def py_def
        ascii_methods_def)
  have a: "validate_password ascii_methods PasswordPolicy_default (py ''short1!'')
             = (False, Some (py ''Password must be at least 12 characters''))"
    using validate_password_first_violation [of ascii_methods PasswordPolicy_default
        "py ''short1!''"]
    unfolding 1 by (simp add: PasswordPolicy_default_def str_int_12 py_def)
  have b: "validate_password ascii_methods PasswordPolicy_default (py ''longenough1234!'')
             = (False, Some (py ''Password must contain at least one uppercase letter''))"
    using validate_password_first_violation [of ascii_methods PasswordPolicy_default
        "py ''longenough1234!''"]
    unfolding 2 by simp
  have c: "validate_password ascii_methods PasswordPolicy_default (py ''Longenough1234!'')
             = (True, None)"
    using validate_password_first_violation [of ascii_methods PasswordPolicy_default
        "py ''Longenough1234!''"]
    unfolding 3 by simp
  show ?thesis using a b c by simp
qed

section \<open>Key state of the \<open>SecretManager\<close>\<close>

lemma encrypt_step_eq:
  "encrypt_step self c =
     (if should_rotate self (now_check c) then create_key self (new_key c) (now_create c)
      else self)"
  by (simp add: encrypt_step_def encrypt_def Let_def)

lemma fst_encrypt:
  "fst (encrypt self n1 n2 k x) = (if should_rotate self n1 then create_key self k n2 else self)"
  by (simp add: encrypt_def Let_def)

lemma key_present_init: "key_present SecretManager_init"
  by (simp add: key_present_def SecretManager_init_def)

lemma key_present_step: "key_present self \<Longrightarrow> key_present (encrypt_step self c)"
  by (simp add: encrypt_step_eq key_present_def create_key_def)

lemma key_present_calls: "key_present self \<Longrightarrow> key_present (encrypt_calls self cs)"
  by (induction cs arbitrary: self) (simp_all add: key_present_step)

lemma rotation_interval_step: "rotation_interval (encrypt_step self c) = rotation_interval self"
  by (simp add: encrypt_step_eq create_key_def)

lemma rotation_interval_calls:
  "rotation_interval (encrypt_calls self cs) = rotation_interval self"
  by (induction cs arbitrary: self) (simp_all add: rotation_interval_step)

lemma encrypt_calls_snoc:
  "encrypt_calls self (cs @ [c]) = encrypt_step (encrypt_calls self cs) c"
  by (induction cs arbitrary: self) simp_all

text \<open>After one \<open>encrypt\<close> from a state that holds a key whenever it holds a creation time.\<close>

lemma fresh_after_step:
  assumes "key_present self" and "0 \<le> rotation_interval self"
  shows "\<exists>k t. fernet (encrypt_step self c) = Some k \<and> key_created (encrypt_step self c) = Some t
           \<and> (if should_rotate self (now_check c) then t = now_create c
                else now_check c - t \<le> rotation_interval (encrypt_step self c))
           \<and> (now_check c \<le> now_create c
                \<longrightarrow> now_check c - t \<le> rotation_interval (encrypt_step self c))"
proof (cases "should_rotate self (now_check c)")
  case True
  then show ?thesis using assms by (simp add: encrypt_step_eq create_key_def)
next
  case False
  then obtain t where t: "key_created self = Some t" "now_check c - t \<le> rotation_interval self"
    by (auto simp: should_rotate_def split: option.splits)
  with assms(1) obtain k where "fernet self = Some k" by (auto simp: key_present_def)
  with False t show ?thesis by (simp add: encrypt_step_eq)
qed

text \<open>
  C6, as the code has it. \<open>SecretManager.__init__\<close> takes no configuration and sets
  \<open>_rotation_interval\<close> to 30 days; nothing reads \<open>key_rotation.interval\<close> of the
  \<open>SecurityConfig\<close>. Whatever the configuration of the service that holds the manager,
  after every \<open>encrypt\<close> call, and so from the first call on, a key and its creation
  time are present and the age of the key, at the last clock reading the call took, does
  not exceed those 30 days: either the call has just created the key, at its second clock
  reading, or the age at the reading of the rotation check is within the 30 days. So the
  age at the rotation check is within the 30 days whenever the second reading of the call
  does not lie before its first.
\<close>

theorem key_fresh_after_encrypt:
  fixes cfg :: SecurityConfig and cs :: "encrypt_call list" and c :: encrypt_call
  defines "before \<equiv> encrypt_calls (secret_manager (SecurityService_init cfg SecretManager_init)) cs"
      and "after \<equiv>
             encrypt_calls (secret_manager (SecurityService_init cfg SecretManager_init)) (cs @ [c])"
  shows "\<exists>k t. fernet after = Some k
     \<and> key_created after = Some t
     \<and> rotation_interval after = 30 * 24 * 60 * 60 * 1000000
     \<and> (if should_rotate before (now_check c) then now_create c else now_check c) - t
           \<le> 30 * 24 * 60 * 60 * 1000000
     \<and> (if should_rotate before (now_check c) then t = now_create c
          else now_check c - t \<le> 30 * 24 * 60 * 60 * 1000000)
     \<and> (now_check c \<le> now_create c \<longrightarrow> now_check c - t \<le> 30 * 24 * 60 * 60 * 1000000)"
proof -
  have sm: "secret_manager (SecurityService_init cfg SecretManager_init) = SecretManager_init"
    by (simp add: SecurityService_init_def)
  have b: "before = encrypt_calls SecretManager_init cs" by (simp add: before_def sm)
  have a: "after = encrypt_step before c" by (simp add: after_def b sm encrypt_calls_snoc)
  have kp: "key_present before" unfolding b by (rule key_present_calls [OF key_present_init])
  have d: "rotation_interval before = 2592000000000"
    by (simp add: b rotation_interval_calls SecretManager_init_def)
  have da: "rotation_interval after = 2592000000000"
    by (simp add: a rotation_interval_step d)
  have "0 \<le> rotation_interval before" by (simp add: d)
  from fresh_after_step [OF kp this, of c] obtain k t where
    k: "fernet after = Some k" and t: "key_created after = Some t"
    and age: "if should_rotate before (now_check c) then t = now_create c
              else now_check c - t \<le> rotation_interval after"
    and mono: "now_check c \<le> now_create c \<longrightarrow> now_check c - t \<le> rotation_interval after"
    unfolding a by blast
  have age': "if should_rotate before (now_check c) then t = now_create c
             else now_check c - t \<le> 2592000000000"
    using age unfolding da .
  have mono': "now_check c \<le> now_create c \<longrightarrow> now_check c - t \<le> 2592000000000"
    using mono unfolding da .
  have last: "(if should_rotate before (now_check c) then now_create c else now_check c) - t
                \<le> 2592000000000"
    using age' by (simp split: if_splits)
  have "fernet after = Some k \<and> key_created after = Some t
     \<and> rotation_interval after = 2592000000000
     \<and> (if should_rotate before (now_check c) then now_create c else now_check c) - t
           \<le> 2592000000000
     \<and> (if should_rotate before (now_check c) then t = now_create c
          else now_check c - t \<le> 2592000000000)
     \<and> (now_check c \<le> now_create c \<longrightarrow> now_check c - t \<le> 2592000000000)"
    using k t da last age' mono' by blast
  then show ?thesis by simp
qed

lemma keys_differ: "key_a \<noteq> key_b"
  by (simp add: key_a_def key_b_def)

lemma encode_secret: "str_encode (py ''secret'') = Inr [115, 101, 99, 114, 101, 116]"
  by (simp add: py_def utf8_encode_cp_def)

lemma first_encrypt:
  "encrypt SecretManager_init 0 1 key_a (py ''secret'')
     = (\<lparr>fernet = Some key_a, key_created = Some 1, rotation_interval = 2592000000000\<rparr>,
        Inr (Token key_a [115, 101, 99, 114, 101, 116]))"
  by (simp add: encrypt_def should_rotate_def create_key_def SecretManager_init_def
      Fernet_encrypt_def encode_secret)

lemma two_days_later:
  "encrypt_calls SecretManager_init [call_first, call_two_days]
     = \<lparr>fernet = Some key_a, key_created = Some 1, rotation_interval = 2592000000000\<rparr>"
  by (simp add: encrypt_step_eq should_rotate_def create_key_def SecretManager_init_def
      call_first_def call_two_days_def)

theorem key_fresh_after_encrypt_witness:
  "interval (key_rotation one_day_config) = 86400000000
   \<and> fernet (encrypt_calls
               (secret_manager (SecurityService_init one_day_config SecretManager_init))
               ([call_first] @ [call_two_days])) = Some key_a
   \<and> key_created (encrypt_calls
               (secret_manager (SecurityService_init one_day_config SecretManager_init))
               ([call_first] @ [call_two_days])) = Some 1
   \<and> now_check call_two_days - 1 \<le> 30 * 24 * 60 * 60 * 1000000"
proof -
  have sm: "secret_manager (SecurityService_init one_day_config SecretManager_init)
              = SecretManager_init"
    by (simp add: SecurityService_init_def)
  have 0: "encrypt_calls SecretManager_init [call_first]
             = \<lparr>fernet = Some key_a, key_created = Some 1, rotation_interval = 2592000000000\<rparr>"
    by (simp add: encrypt_step_eq should_rotate_def create_key_def SecretManager_init_def
        call_first_def)
  have tl: "encrypt_calls SecretManager_init ([call_first] @ [call_two_days])
              = \<lparr>fernet = Some key_a, key_created = Some 1,
                 rotation_interval = 2592000000000\<rparr>"
    using two_days_later by simp
  have 1: "now_check call_two_days \<le> now_create call_two_days"
    by (simp add: call_two_days_def)
  have 2: "interval (key_rotation one_day_config) = 86400000000"
    by (simp add: one_day_config_def SecurityConfig_default_def)
  show ?thesis
    using key_fresh_after_encrypt [of one_day_config "[call_first]" call_two_days] 1 2
    unfolding sm 0 tl by simp
qed

text \<open>
  C6 as stated fails. A service is configured with a key rotation interval of one day and
  holds a manager as \<open>__init__\<close> leaves it. A first \<open>encrypt\<close> creates the key; at
  the \<open>encrypt\<close> two days later the rotation check compares the age with the 30 days
  of the manager and keeps the key, whose age at that check exceeds the configured day.
\<close>

theorem configured_interval_not_enforced:
  "interval (key_rotation (config (SecurityService_init one_day_config SecretManager_init)))
     = 86400000000
   \<and> fernet (encrypt_calls
               (secret_manager (SecurityService_init one_day_config SecretManager_init))
               [call_first, call_two_days]) = Some key_a
   \<and> key_created (encrypt_calls
               (secret_manager (SecurityService_init one_day_config SecretManager_init))
               [call_first, call_two_days]) = Some 1
   \<and> interval (key_rotation (config (SecurityService_init one_day_config SecretManager_init)))
       < now_check call_two_days - 1"
proof -
  have sm: "secret_manager (SecurityService_init one_day_config SecretManager_init)
              = SecretManager_init"
    and cfg: "config (SecurityService_init one_day_config SecretManager_init) = one_day_config"
    by (simp_all add: SecurityService_init_def)
  have i: "interval (key_rotation one_day_config) = 86400000000"
    by (simp add: one_day_config_def SecurityConfig_default_def)
  have n: "now_check call_two_days = 172800000000" by (simp add: call_two_days_def)
  show ?thesis unfolding sm cfg two_days_later i n by simp
qed

section \<open>Encrypting and decrypting\<close>

text \<open>Without a rotation the state stays as it is.\<close>

lemma not_rotated_same: "\<not> rotated self cs \<Longrightarrow> encrypt_calls self cs = self"
  by (induction cs arbitrary: self) (auto simp add: encrypt_step_eq)

lemma rotated_new_key:
  "rotated self cs \<Longrightarrow> \<exists>c \<in> set cs. fernet (encrypt_calls self cs) = Some (new_key c)"
proof (induction cs arbitrary: self)
  case Nil
  then show ?case by simp
next
  case (Cons c cs)
  show ?case
  proof (cases "rotated (encrypt_step self c) cs")
    case True
    then show ?thesis using Cons.IH [of "encrypt_step self c"] by auto
  next
    case False
    then have "should_rotate self (now_check c)" using Cons.prems by simp
    moreover have "encrypt_calls (encrypt_step self c) cs = encrypt_step self c"
      using False by (rule not_rotated_same)
    ultimately show ?thesis by (simp add: encrypt_step_eq create_key_def)
  qed
qed

lemma encrypt_result:
  assumes "encrypt self n1 n2 k x = (self1, Inr c)"
  shows "\<exists>k1 b. fernet self1 = Some k1 \<and> str_encode x = Inr b \<and> c = Token k1 b"
  using assms
  by (auto simp: encrypt_def Let_def Fernet_encrypt_def split: option.splits sum.splits if_splits)

lemma encrypt_succeeds:
  assumes "key_present self" and "str_encode x = Inr b"
  shows "\<exists>k1. encrypt self n1 n2 k x =
            (if should_rotate self n1 then create_key self k n2 else self, Inr (Token k1 b))
          \<and> fernet (fst (encrypt self n1 n2 k x)) = Some k1"
proof (cases "should_rotate self n1")
  case True
  then show ?thesis using assms
    by (simp add: encrypt_def Let_def Fernet_encrypt_def create_key_def)
next
  case False
  then obtain t where "key_created self = Some t"
    by (auto simp: should_rotate_def split: option.splits)
  with assms(1) obtain k1 where "fernet self = Some k1" by (auto simp: key_present_def)
  with False assms(2) show ?thesis by (simp add: encrypt_def Let_def Fernet_encrypt_def)
qed

lemma decrypt_token:
  assumes "fernet self = Some k'" and "str_encode x = Inr b"
  shows "decrypt self (Token k b) = (if k = k' then Inr x else Inl InvalidToken)"
  using assms by (simp add: decrypt_def Fernet_decrypt_def bytes_decode_str_encode)

text \<open>
  C3. Let \<open>x\<close> be a \<open>str\<close> with UTF-8 encoding \<open>b\<close>, the byte sequence that is
  encrypted. On a manager in any state reached from \<open>__init__\<close> by \<open>encrypt\<close> calls,
  \<open>encrypt x\<close> returns a ciphertext, and as long as no later \<open>encrypt\<close> call rotates
  the key, \<open>decrypt\<close> of that ciphertext returns \<open>x\<close>. (\<open>decrypt\<close> calls in between
  change nothing: they leave the state as it is.)
\<close>

theorem decrypt_encrypt_roundtrip:
  assumes "str_encode x = Inr b"
      and "encrypt (encrypt_calls SecretManager_init pre) n1 n2 k x = (self1, r)"
      and "\<not> rotated self1 cs"
  shows "\<exists>c. r = Inr c \<and> decrypt (encrypt_calls self1 cs) c = Inr x"
proof -
  have "key_present (encrypt_calls SecretManager_init pre)"
    by (rule key_present_calls [OF key_present_init])
  from encrypt_succeeds [OF this assms(1), of n1 n2 k] assms(2)
  obtain k1 where r: "r = Inr (Token k1 b)" and k1: "fernet self1 = Some k1"
    by auto
  have "encrypt_calls self1 cs = self1" using assms(3) by (rule not_rotated_same)
  then show ?thesis using r decrypt_token [OF k1 assms(1), of k1] by simp
qed

theorem decrypt_encrypt_roundtrip_witness:
  "snd (encrypt SecretManager_init 0 1 key_a (py ''secret''))
     = Inr (Token key_a [115, 101, 99, 114, 101, 116])
   \<and> decrypt (encrypt_calls (fst (encrypt SecretManager_init 0 1 key_a (py ''secret'')))
                [call_soon])
        (Token key_a [115, 101, 99, 114, 101, 116]) = Inr (py ''secret'')"
proof -
  let ?s1 = "\<lparr>fernet = Some key_a, key_created = Some 1, rotation_interval = 2592000000000\<rparr>"
  have 2: "encrypt (encrypt_calls SecretManager_init []) 0 1 key_a (py ''secret'')
             = (?s1, Inr (Token key_a [115, 101, 99, 114, 101, 116]))"
    by (simp add: first_encrypt)
  have 3: "\<not> rotated ?s1 [call_soon]"
    by (simp add: should_rotate_def call_soon_def)
  show ?thesis
    using decrypt_encrypt_roundtrip [OF encode_secret 2 3] by (simp add: first_encrypt)
qed

text \<open>
  C1, as the code has it. The manager keeps one key, the current one, and no earlier
  key: once an \<open>encrypt\<close> call has rotated the key (every key generated since differing
  from the one that sealed the ciphertext), \<open>decrypt\<close> of the ciphertext raises
  \<open>InvalidToken\<close>.
\<close>

theorem decrypt_after_rotation_fails:
  assumes "encrypt self n1 n2 k x = (self1, Inr c)"
      and "rotated self1 cs"
      and "\<forall>call \<in> set cs. fernet self1 \<noteq> Some (new_key call)"
  shows "decrypt (encrypt_calls self1 cs) c = Inl InvalidToken"
proof -
  from encrypt_result [OF assms(1)] obtain k1 b where
    k1: "fernet self1 = Some k1" and b: "str_encode x = Inr b" and c: "c = Token k1 b"
    by blast
  from rotated_new_key [OF assms(2)] obtain call where
    call: "call \<in> set cs" "fernet (encrypt_calls self1 cs) = Some (new_key call)"
    by blast
  have "k1 \<noteq> new_key call" using assms(3) call(1) k1 by auto
  then show ?thesis using decrypt_token [OF call(2) b, of k1] c by simp
qed

theorem decrypt_after_rotation_fails_witness:
  "decrypt (encrypt_calls (fst (encrypt SecretManager_init 0 1 key_a (py ''secret'')))
              [call_soon, call_late])
     (Token key_a [115, 101, 99, 114, 101, 116]) = Inl InvalidToken"
proof -
  let ?s1 = "\<lparr>fernet = Some key_a, key_created = Some 1, rotation_interval = 2592000000000\<rparr>"
  have 2: "rotated ?s1 [call_soon, call_late]"
    by (simp add: encrypt_step_eq should_rotate_def call_soon_def call_late_def)
  have 3: "\<forall>call \<in> set [call_soon, call_late]. fernet ?s1 \<noteq> Some (new_key call)"
    by (simp add: call_soon_def call_late_def keys_differ)
  show ?thesis
    using decrypt_after_rotation_fails [OF first_encrypt 2 3] by (simp add: first_encrypt)
qed

text \<open>
  C1 as stated fails. A ciphertext of \<open>secret\<close> is made at time 0; 31 days later
  another \<open>encrypt\<close> rotates the key. \<open>decrypt\<close> of the first ciphertext then
  neither returns \<open>secret\<close> nor reports a missing key (the only such report of the
  code is the \<open>ValueError\<close> of a manager without any key): it raises
  \<open>InvalidToken\<close>, the library's error for a token that fails authentication.
\<close>

theorem rotation_loses_old_ciphertext:
  "snd (encrypt SecretManager_init 0 1 key_a (py ''secret''))
     = Inr (Token key_a [115, 101, 99, 114, 101, 116])
   \<and> decrypt (fst (encrypt (fst (encrypt SecretManager_init 0 1 key_a (py ''secret'')))
                      2678400000000 2678400000001 key_b (py ''other'')))
        (Token key_a [115, 101, 99, 114, 101, 116])
     = Inl InvalidToken"
  by (simp add: first_encrypt fst_encrypt should_rotate_def create_key_def decrypt_def
      Fernet_decrypt_def keys_differ)

text \<open>
  C10. On a manager on which \<open>encrypt\<close> was never called, which is the manager as
  \<open>__init__\<close> leaves it, and on any manager without a key, \<open>decrypt\<close> raises the
  \<open>ValueError\<close> for every ciphertext: no plaintext is returned.
\<close>

theorem decrypt_without_key:
  "decrypt SecretManager_init c = Inl (ValueError ''No encryption key available'')
   \<and> (fernet self = None \<longrightarrow> decrypt self c = Inl (ValueError ''No encryption key available''))"
  by (simp add: decrypt_def SecretManager_init_def)

theorem decrypt_without_key_witness:
  "fernet SecretManager_init = None
   \<and> decrypt SecretManager_init (Token key_a [115, 101, 99, 114, 101, 116])
       = Inl (ValueError ''No encryption key available'')
   \<and> decrypt SecretManager_init (Junk (py ''gAAAAA''))
       = Inl (ValueError ''No encryption key available'')"
  using decrypt_without_key [of "Token key_a [115, 101, 99, 114, 101, 116]" SecretManager_init]
    decrypt_without_key [of "Junk (py ''gAAAAA'')" SecretManager_init]
  by (simp add: SecretManager_init_def)

section \<open>Rate limiting: exempt paths and fresh windows\<close>

text \<open>
  C9. For every address and every path in the configured exempt list,
  \<open>check_rate_limit\<close> admits and does no bookkeeping: the service, and with it the
  whole map of entries, is returned as it was.
\<close>

theorem exempt_path_admitted_unchanged:
  assumes "path \<in> set (skip_paths (rate_limit (config self)))"
  shows "check_rate_limit self path ip now = (True, self)"
  using assms by (simp add: check_rate_limit_def)

subsection \<open>Single calls\<close>

lemma check_fresh:
  assumes "path \<notin> set (skip_paths (rate_limit (config self)))"
      and "clean_up self now (rate_key path ip) = None"
  shows "check_rate_limit self path ip now =
           (True, self\<lparr>failed_attempts :=
                    (clean_up self now)(rate_key path ip \<mapsto> \<lparr>count = 1, timestamp = now\<rparr>)\<rparr>)"
  using assms by (simp add: check_rate_limit_def)

lemma check_live:
  assumes "path \<notin> set (skip_paths (rate_limit (config self)))"
      and "clean_up self now (rate_key path ip) = Some v"
  shows "check_rate_limit self path ip now =
           (if count v \<ge> max_requests (rate_limit (config self))
            then (False, self\<lparr>failed_attempts := clean_up self now\<rparr>)
            else (True, self\<lparr>failed_attempts :=
                    (clean_up self now)(rate_key path ip \<mapsto> v\<lparr>count := count v + 1\<rparr>)\<rparr>))"
  using assms by (simp add: check_rate_limit_def)

lemma clean_up_live:
  assumes "failed_attempts self k = Some v"
      and "now - timestamp v < window (rate_limit (config self))"
  shows "clean_up self now k = Some v"
  using assms by (simp add: clean_up_def)

lemma clean_up_expired:
  assumes "failed_attempts self k = Some v"
      and "window (rate_limit (config self)) \<le> now - timestamp v"
  shows "clean_up self now k = None"
  using assms by (simp add: clean_up_def)

lemma config_check_rate_limit:
  "config (snd (check_rate_limit self path ip now)) = config self"
  by (simp add: check_rate_limit_def Let_def split: option.splits)

theorem exempt_path_admitted_unchanged_witness:
  "failed_attempts
     (snd (check_rate_limit (SecurityService_init SecurityConfig_default SecretManager_init)
             (py ''/api'') (py ''1.2.3.4'') 0))
     (rate_key (py ''/api'') (py ''1.2.3.4'')) = Some \<lparr>count = 1, timestamp = 0\<rparr>
   \<and> check_rate_limit
        (snd (check_rate_limit (SecurityService_init SecurityConfig_default SecretManager_init)
                (py ''/api'') (py ''1.2.3.4'') 0))
        (py ''/health'') (py ''1.2.3.4'') 1
      = (True,
         snd (check_rate_limit (SecurityService_init SecurityConfig_default SecretManager_init)
                (py ''/api'') (py ''1.2.3.4'') 0))"
proof -
  let ?init = "SecurityService_init SecurityConfig_default SecretManager_init"
  let ?S = "snd (check_rate_limit ?init (py ''/api'') (py ''1.2.3.4'') 0)"
  have skips: "skip_paths (rate_limit (config ?init)) = [py ''/health'', py ''/metrics'']"
    by (simp add: SecurityService_init_def SecurityConfig_default_def RateLimit_default_def)
  have "py ''/api'' \<notin> set (skip_paths (rate_limit (config ?init)))"
    by (simp add: skips py_def)
  moreover have "clean_up ?init 0 (rate_key (py ''/api'') (py ''1.2.3.4'')) = None"
    by (simp add: SecurityService_init_def clean_up_def)
  ultimately have entry: "failed_attempts ?S (rate_key (py ''/api'') (py ''1.2.3.4''))
                            = Some \<lparr>count = 1, timestamp = 0\<rparr>"
    by (simp add: check_fresh)
  have cfg: "config ?S = config ?init" by (rule config_check_rate_limit)
  have "py ''/health'' \<in> set (skip_paths (rate_limit (config ?S)))"
    unfolding cfg skips by simp
  then have "check_rate_limit ?S (py ''/health'') (py ''1.2.3.4'') 1 = (True, ?S)"
    by (rule exempt_path_admitted_unchanged)
  with entry show ?thesis by (intro conjI)
qed

text \<open>One call against a live entry that has not passed the limit.\<close>

lemma check_step:
  assumes skip: "path \<notin> set (skip_paths (rate_limit (config self)))"
      and entry: "failed_attempts self (rate_key path ip) = Some \<lparr>count = c, timestamp = t0\<rparr>"
      and live: "now - t0 < window (rate_limit (config self))"
      and le: "c \<le> max_requests (rate_limit (config self))"
  shows "fst (check_rate_limit self path ip now) = (c < max_requests (rate_limit (config self)))"
    and "failed_attempts (snd (check_rate_limit self path ip now)) (rate_key path ip)
           = Some \<lparr>count = min (c + 1) (max_requests (rate_limit (config self))),
                   timestamp = t0\<rparr>"
proof -
  have cl: "clean_up self now (rate_key path ip) = Some \<lparr>count = c, timestamp = t0\<rparr>"
    using entry live by (simp add: clean_up_live)
  show "fst (check_rate_limit self path ip now) = (c < max_requests (rate_limit (config self)))"
    by (auto simp: check_live [OF skip cl])
  show "failed_attempts (snd (check_rate_limit self path ip now)) (rate_key path ip)
           = Some \<lparr>count = min (c + 1) (max_requests (rate_limit (config self))),
                   timestamp = t0\<rparr>"
    using le by (auto simp: check_live [OF skip cl] cl min_def)
qed

lemma check_rate_limits_live:
  assumes "path \<notin> set (skip_paths (rate_limit (config self)))"
      and "failed_attempts self (rate_key path ip) = Some \<lparr>count = c, timestamp = t0\<rparr>"
      and "\<forall>t \<in> set ts. t - t0 < window (rate_limit (config self))"
      and "c \<le> max_requests (rate_limit (config self))"
  shows "fst (check_rate_limits self path ip ts)
           = map (\<lambda>i. c + int i < max_requests (rate_limit (config self))) [0..<length ts]
         \<and> failed_attempts (snd (check_rate_limits self path ip ts)) (rate_key path ip)
           = Some \<lparr>count = min (c + int (length ts)) (max_requests (rate_limit (config self))),
                   timestamp = t0\<rparr>
         \<and> config (snd (check_rate_limits self path ip ts)) = config self"
  using assms
proof (induction ts arbitrary: self c)
  case Nil
  then show ?case by simp
next
  case (Cons t ts)
  let ?M = "max_requests (rate_limit (config self))"
  let ?s1 = "snd (check_rate_limit self path ip t)"
  let ?c1 = "min (c + 1) ?M"
  have cfg: "config ?s1 = config self" by (rule config_check_rate_limit)
  have live: "t - t0 < window (rate_limit (config self))" using Cons.prems(3) by simp
  have b: "fst (check_rate_limit self path ip t) = (c < ?M)"
    by (rule check_step(1) [OF Cons.prems(1,2) live Cons.prems(4)])
  have e: "failed_attempts ?s1 (rate_key path ip) = Some \<lparr>count = ?c1, timestamp = t0\<rparr>"
    by (rule check_step(2) [OF Cons.prems(1,2) live Cons.prems(4)])
  have IH: "fst (check_rate_limits ?s1 path ip ts)
           = map (\<lambda>i. ?c1 + int i < ?M) [0..<length ts]
         \<and> failed_attempts (snd (check_rate_limits ?s1 path ip ts)) (rate_key path ip)
           = Some \<lparr>count = min (?c1 + int (length ts)) ?M, timestamp = t0\<rparr>
         \<and> config (snd (check_rate_limits ?s1 path ip ts)) = config self"
    using Cons.IH [of ?s1 ?c1] Cons.prems e by (simp add: cfg)
  have m: "map (\<lambda>i. ?c1 + int i < ?M) [0..<length ts]
             = map (\<lambda>i. c + int (Suc i) < ?M) [0..<length ts]"
    using Cons.prems(4) by (auto simp: min_def)
  have c: "min (?c1 + int (length ts)) ?M = min (c + int (length (t # ts))) ?M"
    using Cons.prems(4) by (auto simp: min_def)
  show ?case
    using IH b
    by (simp add: case_prod_unfold Let_def map_upt_Suc m c del: upt_Suc)
qed

text \<open>
  C8. The first call for an address and path with no live entry for its key (none survives
  the clean-up at the time of the call) is admitted whatever \<open>max_requests\<close> is, zero
  included, and the entry is created with count 1.
\<close>

theorem first_request_admitted:
  assumes "path \<notin> set (skip_paths (rate_limit (config self)))"
      and "clean_up self now (rate_key path ip) = None"
  shows "fst (check_rate_limit self path ip now)
         \<and> failed_attempts (snd (check_rate_limit self path ip now)) (rate_key path ip)
             = Some \<lparr>count = 1, timestamp = now\<rparr>"
  by (simp add: check_fresh [OF assms])

theorem first_request_admitted_witness:
  "max_requests (rate_limit (config (SecurityService_init (tiny_config 0) SecretManager_init))) = 0
   \<and> fst (check_rate_limit (SecurityService_init (tiny_config 0) SecretManager_init)
            (py ''/api'') (py ''1.2.3.4'') 7)
   \<and> failed_attempts
        (snd (check_rate_limit (SecurityService_init (tiny_config 0) SecretManager_init)
               (py ''/api'') (py ''1.2.3.4'') 7))
        (rate_key (py ''/api'') (py ''1.2.3.4''))
      = Some \<lparr>count = 1, timestamp = 7\<rparr>"
proof -
  let ?S = "SecurityService_init (tiny_config 0) SecretManager_init"
  have 1: "py ''/api'' \<notin> set (skip_paths (rate_limit (config ?S)))"
    by (simp add: SecurityService_init_def tiny_config_def py_def)
  have 2: "clean_up ?S 7 (rate_key (py ''/api'') (py ''1.2.3.4'')) = None"
    by (simp add: SecurityService_init_def clean_up_def)
  have 3: "max_requests (rate_limit (config ?S)) = 0"
    by (simp add: SecurityService_init_def tiny_config_def)
  show ?thesis using first_request_admitted [OF 1 2] 3 by simp
qed

section \<open>Rate limiting: one window\<close>

text \<open>
  C2. Take a path that is not exempt, \<open>max_requests \<ge> 1\<close>, a first call at \<open>t0\<close> that
  finds no live entry for the key, and further calls at times \<open>ts\<close> that all fall in
  the window opened at \<open>t0\<close>. Then call number \<open>i\<close> (from 0) is admitted exactly
  when \<open>i < max_requests\<close>: the admissions number \<open>min n max_requests\<close>, every further
  call is denied, and the count of the entry stops at \<open>max_requests\<close> (a denied call
  does not increment it). Once the window has elapsed the next call is admitted again and
  opens a new entry.
\<close>

theorem rate_limit_window:
  fixes self :: SecurityService and path ip :: str and t0 :: datetime and ts :: "datetime list"
  defines "M \<equiv> max_requests (rate_limit (config self))"
      and "W \<equiv> window (rate_limit (config self))"
      and "run \<equiv> check_rate_limits self path ip (t0 # ts)"
  assumes skip: "path \<notin> set (skip_paths (rate_limit (config self)))"
      and max: "1 \<le> M"
      and fresh: "clean_up self t0 (rate_key path ip) = None"
      and within: "\<forall>t \<in> set ts. t - t0 < W"
  shows "fst run = map (\<lambda>i. int i < M) [0..<length (t0 # ts)]
         \<and> int (length (filter (\<lambda>b. b) (fst run))) = min (int (length (t0 # ts))) M
         \<and> failed_attempts (snd run) (rate_key path ip)
             = Some \<lparr>count = min (int (length (t0 # ts))) M, timestamp = t0\<rparr>
         \<and> (\<forall>t'. W \<le> t' - t0 \<longrightarrow>
               fst (check_rate_limit (snd run) path ip t')
               \<and> failed_attempts (snd (check_rate_limit (snd run) path ip t')) (rate_key path ip)
                   = Some \<lparr>count = 1, timestamp = t'\<rparr>)"
proof -
  let ?key = "rate_key path ip"
  let ?s1 = "snd (check_rate_limit self path ip t0)"
  have first: "check_rate_limit self path ip t0 =
           (True, self\<lparr>failed_attempts :=
                    (clean_up self t0)(?key \<mapsto> \<lparr>count = 1, timestamp = t0\<rparr>)\<rparr>)"
    by (rule check_fresh [OF skip fresh])
  have cfg1: "config ?s1 = config self" by (rule config_check_rate_limit)
  have e1: "failed_attempts ?s1 ?key = Some \<lparr>count = 1, timestamp = t0\<rparr>"
    by (simp add: first)
  have rest: "fst (check_rate_limits ?s1 path ip ts)
           = map (\<lambda>i. 1 + int i < M) [0..<length ts]
         \<and> failed_attempts (snd (check_rate_limits ?s1 path ip ts)) ?key
           = Some \<lparr>count = min (1 + int (length ts)) M, timestamp = t0\<rparr>
         \<and> config (snd (check_rate_limits ?s1 path ip ts)) = config self"
    using check_rate_limits_live [of path ?s1 ip 1 t0 ts] skip e1 within max
    by (simp add: cfg1 M_def W_def)
  have run: "run = (True # fst (check_rate_limits ?s1 path ip ts),
                    snd (check_rate_limits ?s1 path ip ts))"
    by (simp add: run_def first case_prod_unfold Let_def)
  have results: "fst run = map (\<lambda>i. int i < M) [0..<length (t0 # ts)]"
    using rest max by (simp add: run map_upt_Suc del: upt_Suc)
  have "int (length (filter (\<lambda>b. b) (map (\<lambda>i. int i < M) [0..<n]))) = min (int n) M"
    if "0 \<le> M" for n
    using that by (induction n) (auto simp: min_def)
  then have admitted: "int (length (filter (\<lambda>b. b) (fst run))) = min (int (length (t0 # ts))) M"
    using max unfolding results by simp
  have entry: "failed_attempts (snd run) ?key
             = Some \<lparr>count = min (int (length (t0 # ts))) M, timestamp = t0\<rparr>"
    using rest by (simp add: run add.commute)
  have cfg: "config (snd run) = config self" using rest by (simp add: run)
  have after: "fst (check_rate_limit (snd run) path ip t')
               \<and> failed_attempts (snd (check_rate_limit (snd run) path ip t')) ?key
                   = Some \<lparr>count = 1, timestamp = t'\<rparr>" if "W \<le> t' - t0" for t'
  proof -
    have "clean_up (snd run) t' ?key = None"
      using clean_up_expired [OF entry, of t'] that by (simp add: cfg W_def)
    moreover have "path \<notin> set (skip_paths (rate_limit (config (snd run))))"
      using skip by (simp add: cfg)
    ultimately show ?thesis by (simp add: check_fresh)
  qed
  show ?thesis using results admitted entry after by blast
qed

theorem rate_limit_window_witness:
  "fst (check_rate_limits (SecurityService_init (tiny_config 2) SecretManager_init)
          (py ''/api/v1/nodes'') (py ''1.2.3.4'') [0, 1, 2]) = [True, True, False]
   \<and> failed_attempts
         (snd (check_rate_limits (SecurityService_init (tiny_config 2) SecretManager_init)
                 (py ''/api/v1/nodes'') (py ''1.2.3.4'') [0, 1, 2]))
         (rate_key (py ''/api/v1/nodes'') (py ''1.2.3.4''))
       = Some \<lparr>count = 2, timestamp = 0\<rparr>
   \<and> fst (check_rate_limit
             (snd (check_rate_limits (SecurityService_init (tiny_config 2) SecretManager_init)
                     (py ''/api/v1/nodes'') (py ''1.2.3.4'') [0, 1, 2]))
             (py ''/api/v1/nodes'') (py ''1.2.3.4'') 10)
   \<and> int (length (filter (\<lambda>b. b)
          (fst (check_rate_limits (SecurityService_init SecurityConfig_default SecretManager_init)
                  (py ''/api/v1/nodes'') (py ''1.2.3.4'') (0 # replicate 999 1))))) = 100"
proof -
  let ?S = "SecurityService_init (tiny_config 2) SecretManager_init"
  let ?D = "SecurityService_init SecurityConfig_default SecretManager_init"
  let ?p = "py ''/api/v1/nodes''"
  let ?i = "py ''1.2.3.4''"
  have M: "max_requests (rate_limit (config ?S)) = 2"
    and W: "window (rate_limit (config ?S)) = 10"
    by (simp_all add: SecurityService_init_def tiny_config_def)
  have 1: "?p \<notin> set (skip_paths (rate_limit (config ?S)))"
    by (simp add: SecurityService_init_def tiny_config_def py_def)
  have 2: "1 \<le> max_requests (rate_limit (config ?S))" by (simp add: M)
  have 3: "clean_up ?S 0 (rate_key ?p ?i) = None"
    by (simp add: SecurityService_init_def clean_up_def)
  have 4: "\<forall>t \<in> set [1, 2]. t - 0 < window (rate_limit (config ?S))" by (simp add: W)
  have 5: "map (\<lambda>i. int i < 2) [0..<length [0::int, 1, 2]] = [True, True, False]"
    by (simp add: upt_rec)
  have small: "fst (check_rate_limits ?S ?p ?i [0, 1, 2]) = [True, True, False]
     \<and> failed_attempts (snd (check_rate_limits ?S ?p ?i [0, 1, 2])) (rate_key ?p ?i)
         = Some \<lparr>count = 2, timestamp = 0\<rparr>
     \<and> fst (check_rate_limit (snd (check_rate_limits ?S ?p ?i [0, 1, 2])) ?p ?i 10)"
    using rate_limit_window [OF 1 2 3 4] by (simp only: M W 5) simp
  have DM: "max_requests (rate_limit (config ?D)) = 100"
    and DW: "window (rate_limit (config ?D)) = 900000000"
    by (simp_all add: SecurityService_init_def SecurityConfig_default_def RateLimit_default_def)
  have 6: "?p \<notin> set (skip_paths (rate_limit (config ?D)))"
    by (simp add: SecurityService_init_def SecurityConfig_default_def RateLimit_default_def
        py_def)
  have 7: "1 \<le> max_requests (rate_limit (config ?D))" by (simp add: DM)
  have 8: "clean_up ?D 0 (rate_key ?p ?i) = None"
    by (simp add: SecurityService_init_def clean_up_def)
  have 9: "\<forall>t \<in> set (replicate 999 1). t - 0 < window (rate_limit (config ?D))"
    by (simp add: DW)
  have "int (length (filter (\<lambda>b. b)
               (fst (check_rate_limits ?D ?p ?i (0 # replicate 999 1)))))
          = min (int (length ((0::int) # replicate 999 1)))
              (max_requests (rate_limit (config ?D)))"
    by (rule rate_limit_window [OF 6 7 8 9, THEN conjunct2, THEN conjunct1])
  also have "\<dots> = 100" by (simp add: DM)
  finally have large: "int (length (filter (\<lambda>b. b)
                 (fst (check_rate_limits ?D ?p ?i (0 # replicate 999 1))))) = 100" .
  show ?thesis using small large by (intro conjI) simp_all
qed

section \<open>\<open>constant_time_compare\<close>\<close>

text \<open>
  C7. The two inputs are compared through their SHA-256 digests, so the claim presumes
  that the digest does not collide on them. For two values with encodings \<open>b1\<close> and
  \<open>b2\<close>, the byte sequences that are compared, on which the digest does not collide,
  the result is whether the two values are identical, which is whether \<open>b1\<close> and
  \<open>b2\<close> are, whatever their lengths. With or without that presumption the result is
  whether the two digests are equal, it is \<open>True\<close> for identical values, and
  \<open>False\<close> only for different ones.
\<close>

theorem constant_time_compare_digests:
  assumes "str_encode val1 = Inr b1" and "str_encode val2 = Inr b2"
  shows "((sha256 b1 = sha256 b2 \<longrightarrow> b1 = b2)
            \<longrightarrow> constant_time_compare sha256 val1 val2 = Inr (val1 = val2)
              \<and> constant_time_compare sha256 val1 val2 = Inr (b1 = b2))
         \<and> (val1 = val2 \<longleftrightarrow> b1 = b2)
         \<and> constant_time_compare sha256 val1 val2 = Inr (sha256 b1 = sha256 b2)
         \<and> (val1 = val2 \<longrightarrow> constant_time_compare sha256 val1 val2 = Inr True)
         \<and> (constant_time_compare sha256 val1 val2 = Inr False \<longrightarrow> val1 \<noteq> val2)"
proof -
  have r: "constant_time_compare sha256 val1 val2 = Inr (sha256 b1 = sha256 b2)"
    using assms by (simp add: constant_time_compare_def)
  have i: "val1 = val2 \<longleftrightarrow> b1 = b2"
    using assms str_encode_inj [of val1 b1 val2] by auto
  show ?thesis unfolding r using i by auto
qed

lemma encode_token: "str_encode (py ''token'') = Inr [116, 111, 107, 101, 110]"
  by (simp add: py_def utf8_encode_cp_def)

lemma encode_tokem: "str_encode (py ''tokem'') = Inr [116, 111, 107, 101, 109]"
  by (simp add: py_def utf8_encode_cp_def)

lemma encode_tokens: "str_encode (py ''tokens'') = Inr [116, 111, 107, 101, 110, 115]"
  by (simp add: py_def utf8_encode_cp_def)

lemma sum_digest_examples:
  "sum_digest [116, 111, 107, 101, 110] = 545"
  "sum_digest [116, 111, 107, 101, 109] = 544"
  "sum_digest [116, 111, 107, 101, 110, 115] = 660"
  by (simp_all add: sum_digest_def)

theorem constant_time_compare_digests_witness:
  "constant_time_compare sum_digest (py ''token'') (py ''token'') = Inr True
   \<and> constant_time_compare sum_digest (py ''token'') (py ''tokem'') = Inr False
   \<and> constant_time_compare sum_digest (py ''token'') (py ''tokens'') = Inr False
   \<and> py ''token'' \<noteq> py ''tokem'' \<and> py ''token'' \<noteq> py ''tokens''"
proof -
  have same: "constant_time_compare sum_digest (py ''token'') (py ''token'') = Inr True"
    using constant_time_compare_digests [OF encode_token encode_token, of sum_digest] by simp
  have 1: "sum_digest [116, 111, 107, 101, 110] = sum_digest [116, 111, 107, 101, 109]
             \<longrightarrow> [116, 111, 107, 101, 110] = [116, 111, 107, 101, (109 :: byte)]"
    by (simp add: sum_digest_examples)
  have 2: "sum_digest [116, 111, 107, 101, 110] = sum_digest [116, 111, 107, 101, 110, 115]
             \<longrightarrow> [116, 111, 107, 101, 110] = [116, 111, 107, 101, 110, (115 :: byte)]"
    by (simp add: sum_digest_examples)
  have d1: "py ''token'' \<noteq> py ''tokem''" and d2: "py ''token'' \<noteq> py ''tokens''"
    by (simp_all add: py_def)
  have equal_length:
    "constant_time_compare sum_digest (py ''token'') (py ''tokem'') = Inr False"
    using constant_time_compare_digests [OF encode_token encode_tokem, of sum_digest] 1 d1
    by simp
  have other_length:
    "constant_time_compare sum_digest (py ''token'') (py ''tokens'') = Inr False"
    using constant_time_compare_digests [OF encode_token encode_tokens, of sum_digest] 2 d2
    by simp
  show ?thesis using same equal_length other_length d1 d2 by simp
qed

end
